theory Spec2Isabelle
  imports Main "HOL-Library.Word" "HOL-Library.AList"
begin

unbundle bit_operations_syntax

section \<open>Bytes, strings and errors\<close>

type_synonym byte = "8 word"
type_synonym bytes = "byte list"
type_synonym uint64 = "64 word"

text \<open>
  A Go \<open>string\<close> is a sequence of bytes; \<open>[]byte(s)\<close> copies them out unchanged.
\<close>

definition bytes_of_string :: "string \<Rightarrow> bytes" where
  "bytes_of_string s = map (\<lambda>c. of_nat (of_char c)) s"

text \<open>
  The error values the indexing code can hand to its caller. The two decode errors are
  the ones the protobuf buffer reports (\<open>io.ErrUnexpectedEOF\<close> and \<open>errOverflow\<close>);
  \<open>Errorf\<close> carries the message of \<open>fmt.Errorf\<close>; \<open>StoreError\<close> is a failure
  of the key-value engine; \<open>NotFound\<close> is the error that the specification expects
  of a query for a key that is absent.
\<close>

datatype error =
    ErrUnexpectedEOF
  | ErrOverflow
  | Errorf string
  | NotFound
  | StoreError string

text \<open>A malformed stored value is one whose decoding stops with a decode error.\<close>

definition MalformedValue :: "error \<Rightarrow> bool" where
  "MalformedValue e = (e = ErrUnexpectedEOF \<or> e = ErrOverflow)"

section \<open>The variable-width integer codec of the protobuf library\<close>

text \<open>
  Modelled from the spec: \<open>proto.EncodeVarint\<close> of github.com/golang/protobuf, which
  the index codec calls and which is not part of the sources at hand. The specification
  describes it as the smallest self-delimiting encoding of an unsigned integer in which
  the high bit of each byte marks continuation; the library emits the value seven bits
  at a time, least significant group first:
  \<^verbatim>\<open>
  for n = 0; x > 127; n++ { buf[n] = 0x80 | uint8(x&0x7F); x >>= 7 }
  buf[n] = uint8(x)
  \<close>
\<close>

function EncodeVarint :: "uint64 \<Rightarrow> bytes" where
  "EncodeVarint x =
     (if x > 127 then (0x80 OR ucast (x AND 0x7F)) # EncodeVarint (drop_bit 7 x)
      else [ucast x])"
  by pat_completeness auto
termination
proof (relation "measure unat")
  show "wf (measure unat)" by simp
next
  fix x :: uint64
  assume "127 < x"
  then have "x \<noteq> 0" by auto
  then have "0 < unat x" by (simp add: unat_gt_0)
  then have "unat x div 2 ^ 7 < unat x" by simp
  then show "(drop_bit 7 x, x) \<in> measure unat"
    by (simp add: drop_bit_eq_div unat_div)
qed

declare EncodeVarint.simps [simp del]

text \<open>
  Modelled from the spec: \<open>proto.Buffer.DecodeVarint\<close>, the reading counterpart on a
  buffer with a read position. It gathers seven bits per byte while the shift stays
  below 64, reports \<open>io.ErrUnexpectedEOF\<close> when the bytes run out inside an integer
  and \<open>errOverflow\<close> when ten bytes all ask for continuation:
  \<^verbatim>\<open>
  for shift := uint(0); shift < 64; shift += 7 {
      if i >= l { err = io.ErrUnexpectedEOF; return }
      b := p.buf[i]; i++
      x |= (uint64(b) & 0x7F) << shift
      if b < 0x80 { p.index = i; return }
  }
  err = errOverflow
  \<close>
  The loop is given the buffer, the shift, the position and the bits gathered so far; it
  returns the value with the position after the integer.
\<close>

function decode_varint_loop :: "bytes \<Rightarrow> nat \<Rightarrow> nat \<Rightarrow> uint64 \<Rightarrow> error + (uint64 \<times> nat)" where
  "decode_varint_loop bs shift i x =
     (if shift < 64 then
        (if i \<ge> length bs then Inl ErrUnexpectedEOF
         else
           let b = bs ! i;
               x' = x OR push_bit shift (ucast b AND 0x7F)
           in if b < 0x80 then Inr (x', i + 1)
              else decode_varint_loop bs (shift + 7) (i + 1) x')
      else Inl ErrOverflow)"
  by pat_completeness auto
termination
  by (relation "measure (\<lambda>(bs, shift, i, x). 64 - shift)") auto

declare decode_varint_loop.simps [simp del]

record Buffer =
  buf :: bytes
  index :: nat

definition NewBuffer :: "bytes \<Rightarrow> Buffer" where
  "NewBuffer e = \<lparr>buf = e, index = 0\<rparr>"

definition Bytes :: "Buffer \<Rightarrow> bytes" where
  "Bytes p = buf p"

definition Buffer_DecodeVarint :: "Buffer \<Rightarrow> error + (uint64 \<times> Buffer)" where
  "Buffer_DecodeVarint p =
     (case decode_varint_loop (buf p) 0 (index p) 0 of
        Inl e \<Rightarrow> Inl e
      | Inr (x, i) \<Rightarrow> Inr (x, p\<lparr>index := i\<rparr>))"

text \<open>
  Modelled from the spec: \<open>proto.Buffer.EncodeVarint\<close> and \<open>EncodeRawBytes\<close>. The
  first appends the same bytes as \<open>proto.EncodeVarint\<close> to the buffer; the second
  appends the length of the byte string as a variable-width integer and then the bytes.
\<close>

definition Buffer_EncodeVarint :: "Buffer \<Rightarrow> uint64 \<Rightarrow> Buffer" where
  "Buffer_EncodeVarint p x = p\<lparr>buf := buf p @ EncodeVarint x\<rparr>"

definition Buffer_EncodeRawBytes :: "Buffer \<Rightarrow> bytes \<Rightarrow> Buffer" where
  "Buffer_EncodeRawBytes p b =
     (let p' = Buffer_EncodeVarint p (of_nat (length b)) in p'\<lparr>buf := buf p' @ b\<rparr>)"

text \<open>
  Modelled from the spec: the package-level \<open>proto.DecodeVarint\<close>, which reads one
  integer from the start of a slice and returns it with the number of bytes consumed.
  It has no error result: when the bytes run out, or the integer does not fit 64 bits,
  it returns \<open>(0, 0)\<close>.
  \<^verbatim>\<open>
  for shift := uint(0); shift < 64; shift += 7 {
      if n >= len(buf) { return 0, 0 }
      b := uint64(buf[n]); n++
      x |= (b & 0x7F) << shift
      if (b & 0x80) == 0 { return x, n }
  }
  return 0, 0
  \<close>
\<close>

function DecodeVarint_loop :: "bytes \<Rightarrow> nat \<Rightarrow> nat \<Rightarrow> uint64 \<Rightarrow> uint64 \<times> nat" where
  "DecodeVarint_loop bs shift n x =
     (if shift < 64 then
        (if n \<ge> length bs then (0, 0)
         else
           let b = (ucast (bs ! n) :: uint64);
               x' = x OR push_bit shift (b AND 0x7F)
           in if b AND 0x80 = 0 then (x', n + 1)
              else DecodeVarint_loop bs (shift + 7) (n + 1) x')
      else (0, 0))"
  by pat_completeness auto
termination
  by (relation "measure (\<lambda>(bs, shift, n, x). 64 - shift)") auto

declare DecodeVarint_loop.simps [simp del]

definition DecodeVarint :: "bytes \<Rightarrow> uint64 \<times> nat" where
  "DecodeVarint bs = DecodeVarint_loop bs 0 0 0"

section \<open>The key and value codec of the index\<close>

definition prefixBlockHashKey :: byte where
  "prefixBlockHashKey = 1"

definition prefixTxGUIDKey :: byte where
  "prefixTxGUIDKey = 2"

definition prefixAddressBlockNumCompositeKey :: byte where
  "prefixAddressBlockNumCompositeKey = 3"

definition prependKeyPrefix :: "byte \<Rightarrow> bytes \<Rightarrow> bytes" where
  "prependKeyPrefix prefix key = ([] @ [prefix]) @ key"

definition encodeBlockNumber :: "uint64 \<Rightarrow> bytes" where
  "encodeBlockNumber blockNumber = EncodeVarint blockNumber"

definition decodeBlockNumber :: "bytes \<Rightarrow> uint64" where
  "decodeBlockNumber blockNumberBytes = fst (DecodeVarint blockNumberBytes)"

definition encodeBlockNumTxIndex :: "uint64 \<Rightarrow> uint64 \<Rightarrow> bytes" where
  "encodeBlockNumTxIndex blockNumber txIndexInBlock =
     (let b = NewBuffer [];
          b = Buffer_EncodeVarint b blockNumber;
          b = Buffer_EncodeVarint b txIndexInBlock
      in Bytes b)"

definition decodeBlockNumTxIndex :: "bytes \<Rightarrow> error + (uint64 \<times> uint64)" where
  "decodeBlockNumTxIndex bs =
     (let b = NewBuffer bs in
      case Buffer_DecodeVarint b of
        Inl err \<Rightarrow> Inl err
      | Inr (blockNum, b) \<Rightarrow>
          (case Buffer_DecodeVarint b of
             Inl err \<Rightarrow> Inl err
           | Inr (txIndex, b) \<Rightarrow> Inr (blockNum, txIndex)))"

definition encodeBlockHashKey :: "bytes \<Rightarrow> bytes" where
  "encodeBlockHashKey blockHash = prependKeyPrefix prefixBlockHashKey blockHash"

definition encodeTxGUIDKey :: "bytes \<Rightarrow> bytes" where
  "encodeTxGUIDKey guidBytes = prependKeyPrefix prefixTxGUIDKey guidBytes"

definition encodeAddressBlockNumCompositeKey :: "string \<Rightarrow> uint64 \<Rightarrow> bytes" where
  "encodeAddressBlockNumCompositeKey address blockNumber =
     (let b = NewBuffer [prefixAddressBlockNumCompositeKey];
          b = Buffer_EncodeRawBytes b (bytes_of_string address);
          b = Buffer_EncodeVarint b blockNumber
      in Bytes b)"

fun encodeListTxIndexes_loop :: "Buffer \<Rightarrow> uint64 list \<Rightarrow> Buffer" where
  "encodeListTxIndexes_loop b [] = b"
| "encodeListTxIndexes_loop b (t # listTx) =
     encodeListTxIndexes_loop (Buffer_EncodeVarint b t) listTx"

definition encodeListTxIndexes :: "uint64 list \<Rightarrow> bytes" where
  "encodeListTxIndexes listTx = Bytes (encodeListTxIndexes_loop (NewBuffer []) listTx)"

text \<open>\<open>encodeChainletID\<close> is a placeholder in the source: it returns no bytes.\<close>

datatype ChainletID = MkChainletID string

definition encodeChainletID :: "ChainletID option \<Rightarrow> bytes" where
  "encodeChainletID c = []"

section \<open>Blocks and transactions\<close>

text \<open>
  Modelled from the spec: the block and transaction messages of the \<open>protos\<close> package,
  with the fields the indexing code reads. A transaction has a type, of which the two
  deployment types are singled out, and a pointer to the identifier of the deployed unit,
  which may be nil; everything else it carries is kept in \<open>Payload\<close>. A block holds
  its transactions in order. \<open>GetTransactions\<close> is the generated accessor, which
  answers a nil block with no transactions. The elements of the transaction list are
  taken to be present (not nil), as they are in every decoded block.
\<close>

datatype Transaction_Type =
    Transaction_CHAINLET_NEW
  | Transaction_CHAINLET_UPDATE
  | Transaction_OTHER nat

record Transaction =
  Type :: Transaction_Type
  ChainletID :: "ChainletID option"
  Payload :: bytes

record Block =
  Transactions :: "Transaction list"

definition GetTransactions :: "Block option \<Rightarrow> Transaction list" where
  "GetTransactions m = (case m of None \<Rightarrow> [] | Some b \<Rightarrow> Transactions b)"

definition GetChainletID :: "Transaction \<Rightarrow> ChainletID option" where
  "GetChainletID tx = ChainletID tx"

text \<open>The three accessors of the source are placeholders that ignore the transaction.\<close>

definition getTxGUIDBytes :: "Transaction \<Rightarrow> bytes" where
  "getTxGUIDBytes tx = bytes_of_string ''TODO:Fetch guid from Tx''"

definition getTxExecutingAddress :: "Transaction \<Rightarrow> string" where
  "getTxExecutingAddress tx = ''address1''"

definition getAuthorisedAddresses :: "Transaction \<Rightarrow> string list \<times> ChainletID option" where
  "getAuthorisedAddresses tx = ([''address1'', ''address2''], GetChainletID tx)"

section \<open>The key-value engine\<close>

text \<open>
  Modelled from the spec: the write batch of the key-value engine and the database handle
  of the \<open>db\<close> package. A write batch is the sequence of writes queued on it, each
  scoped to a column family; committing it applies the writes in order, so that the last
  write to a key wins. The engine offers a get-by-key and nothing that tells an absent
  key apart: a point read on the index column family fails with the engine's own error
  when the engine fails, returns the stored bytes when the key is present, and returns
  no bytes and no error when the key is absent (Go's nil slice, which has length 0 and
  reads as the empty byte string).
\<close>

datatype ColumnFamilyHandle = IndexesCF | OtherCF string

datatype WriteOp =
    PutCF ColumnFamilyHandle bytes bytes
  | DeleteCF ColumnFamilyHandle bytes

type_synonym WriteBatch = "WriteOp list"

definition WriteBatch_PutCF :: "WriteBatch \<Rightarrow> ColumnFamilyHandle \<Rightarrow> bytes \<Rightarrow> bytes \<Rightarrow> WriteBatch" where
  "WriteBatch_PutCF wb cf key val = wb @ [PutCF cf key val]"

type_synonym store = "ColumnFamilyHandle \<times> bytes \<Rightarrow> bytes option"

record OpenchainDB =
  data :: store
  fault :: "string option"

fun apply_op :: "WriteOp \<Rightarrow> store \<Rightarrow> store" where
  "apply_op (PutCF cf key val) st = st((cf, key) \<mapsto> val)"
| "apply_op (DeleteCF cf key) st = st((cf, key) := None)"

definition Write :: "WriteBatch \<Rightarrow> store \<Rightarrow> store" where
  "Write wb st = fold apply_op wb st"

definition GetFromIndexesCF :: "OpenchainDB \<Rightarrow> bytes \<Rightarrow> error + bytes" where
  "GetFromIndexesCF openchainDB key =
     (case fault openchainDB of
        Some msg \<Rightarrow> Inl (StoreError msg)
      | None \<Rightarrow>
          (case data openchainDB (IndexesCF, key) of
             None \<Rightarrow> Inr []
           | Some val \<Rightarrow> Inr val))"

section \<open>Extraction of the index entries of a block\<close>

text \<open>
  A Go map from strings to slices is kept as an association list in the order in which
  the keys were first stored; \<open>m[k] = append(m[k], v)\<close> reads a missing key as the
  empty slice. Go leaves the order of \<open>range\<close> over a map open; the model visits the
  keys in the order of the list.
\<close>

definition map_append :: "('k \<times> 'v list) list \<Rightarrow> 'k \<Rightarrow> 'v \<Rightarrow> ('k \<times> 'v list) list" where
  "map_append m k v =
     AList.update k ((case map_of m k of None \<Rightarrow> [] | Some l \<Rightarrow> l) @ [v]) m"

record loop_state =
  writeBatch :: WriteBatch
  addressToTxIndexesMap :: "(string \<times> uint64 list) list"
  addressToChainletIDsMap :: "(string \<times> ChainletID option list) list"

text \<open>The body of the loop over the transactions, for the transaction at \<open>txIndex\<close>.\<close>

definition tx_step :: "uint64 \<Rightarrow> nat \<Rightarrow> Transaction \<Rightarrow> loop_state \<Rightarrow> loop_state" where
  "tx_step blockNumber txIndex tx s =
     (let wb = WriteBatch_PutCF (writeBatch s) IndexesCF
                 (encodeTxGUIDKey (getTxGUIDBytes tx))
                 (encodeBlockNumTxIndex blockNumber (of_nat txIndex));
          txExecutingAddress = getTxExecutingAddress tx;
          txm = map_append (addressToTxIndexesMap s) txExecutingAddress (of_nat txIndex);
          cm = (if Type tx = Transaction_CHAINLET_NEW \<or> Type tx = Transaction_CHAINLET_UPDATE
                then (case getAuthorisedAddresses tx of
                        (authroizedAddresses, chainletID) \<Rightarrow>
                          foldl (\<lambda>m authroizedAddress. map_append m authroizedAddress chainletID)
                            (addressToChainletIDsMap s) authroizedAddresses)
                else addressToChainletIDsMap s)
      in \<lparr>writeBatch = wb, addressToTxIndexesMap = txm, addressToChainletIDsMap = cm\<rparr>)"

fun tx_loop :: "uint64 \<Rightarrow> nat \<Rightarrow> Transaction list \<Rightarrow> loop_state \<Rightarrow> loop_state" where
  "tx_loop blockNumber txIndex [] s = s"
| "tx_loop blockNumber txIndex (tx # transactions) s =
     tx_loop blockNumber (txIndex + 1) transactions (tx_step blockNumber txIndex tx s)"

fun address_loop :: "uint64 \<Rightarrow> (string \<times> uint64 list) list \<Rightarrow> WriteBatch \<Rightarrow> WriteBatch" where
  "address_loop blockNumber [] wb = wb"
| "address_loop blockNumber ((address, txsIndexes) # m) wb =
     address_loop blockNumber m
       (WriteBatch_PutCF wb IndexesCF
          (encodeAddressBlockNumCompositeKey address blockNumber)
          (encodeListTxIndexes txsIndexes))"

text \<open>
  \<open>addIndexDataForPersistence\<close> queues the index entries of a block on the caller's
  write batch. It returns the error of the source (always nil, here \<open>None\<close>) and the
  batch as it stands afterwards.
\<close>

definition addIndexDataForPersistence ::
  "Block option \<Rightarrow> uint64 \<Rightarrow> bytes \<Rightarrow> WriteBatch \<Rightarrow> error option \<times> WriteBatch" where
  "addIndexDataForPersistence block blockNumber blockHash wb0 =
     (let cf = IndexesCF;
          wb = WriteBatch_PutCF wb0 cf (encodeBlockHashKey blockHash) (encodeBlockNumber blockNumber);
          transactions = GetTransactions block;
          s = tx_loop blockNumber 0 transactions
                \<lparr>writeBatch = wb, addressToTxIndexesMap = [], addressToChainletIDsMap = []\<rparr>;
          wb = address_loop blockNumber (addressToTxIndexesMap s) (writeBatch s)
      in (None, wb))"

section \<open>Queries\<close>

definition fetchBlockNumberByBlockHashFromDB :: "OpenchainDB \<Rightarrow> bytes \<Rightarrow> error + uint64" where
  "fetchBlockNumberByBlockHashFromDB openchainDB blockHash =
     (case GetFromIndexesCF openchainDB (encodeBlockHashKey blockHash) of
        Inl err \<Rightarrow> Inl err
      | Inr blockNumberBytes \<Rightarrow> Inr (decodeBlockNumber blockNumberBytes))"

definition fetchTransactionIndexByGUIDFromDB :: "OpenchainDB \<Rightarrow> bytes \<Rightarrow> error + (uint64 \<times> uint64)" where
  "fetchTransactionIndexByGUIDFromDB openchainDB txGUID =
     (case GetFromIndexesCF openchainDB (encodeTxGUIDKey txGUID) of
        Inl err \<Rightarrow> Inl err
      | Inr blockNumTxIndexBytes \<Rightarrow> decodeBlockNumTxIndex blockNumTxIndexBytes)"

section \<open>The synchronous indexer\<close>

text \<open>
  \<open>blockchainIndexerSync\<close> is a struct without fields. The methods that the source
  writes without any access to the database take the database handle and hand it back,
  so that what they leave untouched can be stated; the queries only read it.
\<close>

datatype blockchainIndexerSync = BlockchainIndexerSync

definition newBlockchainIndexerSync :: blockchainIndexerSync where
  "newBlockchainIndexerSync = BlockchainIndexerSync"

definition isSynchronous :: "blockchainIndexerSync \<Rightarrow> bool" where
  "isSynchronous indexer = True"

definition start :: "blockchainIndexerSync \<Rightarrow> OpenchainDB \<Rightarrow> error option \<times> OpenchainDB" where
  "start indexer openchainDB = (None, openchainDB)"

definition createIndexesSync ::
  "blockchainIndexerSync \<Rightarrow> Block option \<Rightarrow> uint64 \<Rightarrow> bytes \<Rightarrow> WriteBatch
     \<Rightarrow> error option \<times> WriteBatch" where
  "createIndexesSync indexer block blockNumber blockHash wb =
     addIndexDataForPersistence block blockNumber blockHash wb"

definition createIndexesAsync ::
  "blockchainIndexerSync \<Rightarrow> Block option \<Rightarrow> uint64 \<Rightarrow> bytes \<Rightarrow> OpenchainDB
     \<Rightarrow> error option \<times> OpenchainDB" where
  "createIndexesAsync indexer block blockNumber blockHash openchainDB =
     (Some (Errorf ''Method not applicable''), openchainDB)"

definition fetchBlockNumberByBlockHash ::
  "blockchainIndexerSync \<Rightarrow> OpenchainDB \<Rightarrow> bytes \<Rightarrow> error + uint64" where
  "fetchBlockNumberByBlockHash indexer openchainDB blockHash =
     fetchBlockNumberByBlockHashFromDB openchainDB blockHash"

definition fetchTransactionIndexByGUID ::
  "blockchainIndexerSync \<Rightarrow> OpenchainDB \<Rightarrow> bytes \<Rightarrow> error + (uint64 \<times> uint64)" where
  "fetchTransactionIndexByGUID indexer openchainDB txGUID =
     fetchTransactionIndexByGUIDFromDB openchainDB txGUID"

definition stop :: "blockchainIndexerSync \<Rightarrow> OpenchainDB \<Rightarrow> OpenchainDB" where
  "stop indexer openchainDB = openchainDB"

text \<open>
  Modelled from the spec: the synchronous commit path of the ledger, which is the caller
  of \<open>createIndexesSync\<close>. It queues the index entries of the block on a batch and
  commits the batch to the store; \<open>indexed_db\<close> is the database after the blocks of a
  list were committed, in order, to an empty store.
\<close>

definition commit_block :: "OpenchainDB \<Rightarrow> Block option \<times> uint64 \<times> bytes \<Rightarrow> OpenchainDB" where
  "commit_block openchainDB c =
     (case c of (block, blockNumber, blockHash) \<Rightarrow>
        (case createIndexesSync newBlockchainIndexerSync block blockNumber blockHash [] of
           (err, wb) \<Rightarrow> openchainDB\<lparr>data := Write wb (data openchainDB)\<rparr>))"

definition indexed_db :: "(Block option \<times> uint64 \<times> bytes) list \<Rightarrow> OpenchainDB" where
  "indexed_db blocks = foldl commit_block \<lparr>data = Map.empty, fault = None\<rparr> blocks"

section \<open>The families of index entries\<close>

text \<open>An index entry belongs to the family named by the first byte of its key.\<close>

fun in_family :: "byte \<Rightarrow> WriteOp \<Rightarrow> bool" where
  "in_family p (PutCF cf (q # key) val) = (cf = IndexesCF \<and> q = p)"
| "in_family p (PutCF cf [] val) = False"
| "in_family p (DeleteCF cf key) = False"

text \<open>The positions, in order, of the transactions of a list that an address executes.\<close>

definition positions_of :: "string \<Rightarrow> Transaction list \<Rightarrow> uint64 list" where
  "positions_of a txs =
     map of_nat (filter (\<lambda>i. getTxExecutingAddress (txs ! i) = a) [0..<length txs])"

text \<open>
  The entries that extraction queues for a block of \<open>k\<close> transactions, written out:
  the entry of the transaction at position \<open>j\<close>, and the list of address entries
  (none for an empty block, one otherwise).
\<close>

definition guid_put :: "uint64 \<Rightarrow> nat \<Rightarrow> WriteOp" where
  "guid_put n j =
     PutCF IndexesCF (encodeTxGUIDKey (bytes_of_string ''TODO:Fetch guid from Tx''))
       (encodeBlockNumTxIndex n (of_nat j))"

definition address_puts :: "uint64 \<Rightarrow> nat \<Rightarrow> WriteOp list" where
  "address_puts n k =
     (if k = 0 then []
      else [PutCF IndexesCF (encodeAddressBlockNumCompositeKey ''address1'' n)
              (encodeListTxIndexes (map of_nat [0..<k]))])"

text \<open>The column family and key that a queued write targets.\<close>

fun op_key :: "WriteOp \<Rightarrow> ColumnFamilyHandle \<times> bytes" where
  "op_key (PutCF cf key val) = (cf, key)"
| "op_key (DeleteCF cf key) = (cf, key)"

text \<open>
  A block whose transactions are given other types and other deployed-unit identifiers,
  and are otherwise left as they are.
\<close>

definition with_deployments ::
  "(Transaction \<Rightarrow> Transaction_Type) \<Rightarrow> (Transaction \<Rightarrow> ChainletID option)
     \<Rightarrow> Block option \<Rightarrow> Block option" where
  "with_deployments f g block =
     map_option (\<lambda>b. b\<lparr>Transactions := map (\<lambda>t. t\<lparr>Type := f t, ChainletID := g t\<rparr>) (Transactions b)\<rparr>) block"

section \<open>Properties of the variable-width integer codec\<close>

lemma m127: "(127::'a::len word) = mask 7" by (simp add: mask_eq_exp_minus_1)

lemma bit128: "bit (128 :: 'a::semiring_bit_operations) n \<longleftrightarrow> possible_bit TYPE('a) 7 \<and> n = 7"
proof -
  have "bit (2 ^ 7 :: 'a) n \<longleftrightarrow> possible_bit TYPE('a) 7 \<and> n = 7"
    by (simp only: bit_exp_iff) auto
  then show ?thesis by simp
qed

lemma cont_byte_not_small: "\<not> ((0x80 OR ucast (y AND 0x7F) :: byte) < 0x80)" for y :: uint64
proof -
  have "(0x80 :: byte) \<le> 0x80 OR ucast (y AND 0x7F)"
    by (rule le_word_or2) 
  then show ?thesis by simp
qed

lemma cont_byte_payload: "(ucast (0x80 OR ucast (y AND 0x7F) :: byte) :: uint64) AND 0x7F = y AND 0x7F" for y :: uint64
  unfolding m127
  apply (rule bit_word_eqI)
  apply (auto simp: bit_simps bit128)
  done

lemma small_mask: "\<not> 127 < y \<Longrightarrow> y AND 0x7F = y" for y :: uint64
proof -
  assume "\<not> 127 < y"
  then have "unat y < 128" by (simp add: not_less word_le_nat_alt)
  then have "y < 2 ^ 7" by (simp add: word_less_nat_alt) 
  then have "y AND mask 7 = y" by (rule less_mask_eq)
  then show ?thesis by (simp add: m127)
qed

lemma last_byte_small: "\<not> 127 < y \<Longrightarrow> (ucast y :: byte) < 0x80" for y :: uint64
proof -
  assume a: "\<not> 127 < y"
  then have "y \<le> 127" by simp
  then have "(ucast y :: byte) \<le> ucast (127 :: uint64)"
    by (simp add: word_le_nat_alt unsigned_ucast_eq take_bit_nat_eq_self)
  then show ?thesis by (simp add: word_le_nat_alt word_less_nat_alt)
qed

lemma last_byte_payload: "\<not> 127 < y \<Longrightarrow> (ucast (ucast y :: byte) :: uint64) AND 0x7F = y" for y :: uint64
proof -
  assume a: "\<not> 127 < y"
  have "(ucast (ucast y :: byte) :: uint64) AND mask 7 = y AND mask 7"
    by (rule bit_word_eqI) (auto simp: bit_simps)
  with small_mask[OF a] show ?thesis by (simp add: m127)
qed

lemma split7: "push_bit shift (y AND 0x7F) OR push_bit (shift + 7) (drop_bit 7 y) = push_bit shift y" for y :: uint64
  unfolding m127
proof (rule bit_word_eqI)
  fix n assume "n < LENGTH(64)"
  have *: "n - shift \<ge> 7 \<Longrightarrow> 7 + (n - (shift + 7)) = n - shift" by arith
  show "bit (push_bit shift (y AND mask 7) OR push_bit (shift + 7) (drop_bit 7 y)) n = bit (push_bit shift y) n"
    using * by (cases "n - shift < 7") (auto simp: bit_simps)
qed

lemma decode_step_cont:
  "shift < 64 \<Longrightarrow> i < length bs \<Longrightarrow> \<not> bs ! i < 0x80 \<Longrightarrow>
   decode_varint_loop bs shift i x
     = decode_varint_loop bs (shift + 7) (i + 1) (x OR push_bit shift (ucast (bs ! i) AND 0x7F))"
  by (subst decode_varint_loop.simps) (simp add: Let_def)

lemma decode_step_last:
  "shift < 64 \<Longrightarrow> i < length bs \<Longrightarrow> bs ! i < 0x80 \<Longrightarrow>
   decode_varint_loop bs shift i x = Inr (x OR push_bit shift (ucast (bs ! i) AND 0x7F), i + 1)"
  by (subst decode_varint_loop.simps) (simp add: Let_def)

lemma decode_step_eof:
  "shift < 64 \<Longrightarrow> length bs \<le> i \<Longrightarrow> decode_varint_loop bs shift i x = Inl ErrUnexpectedEOF"
  by (subst decode_varint_loop.simps) simp

lemma decode_step_overflow:
  "\<not> shift < 64 \<Longrightarrow> decode_varint_loop bs shift i x = Inl ErrOverflow"
  by (subst decode_varint_loop.simps) simp

lemma decode_encoded:
  "shift < 64 \<Longrightarrow> unat y < 2 ^ (64 - shift) \<Longrightarrow>
   decode_varint_loop (pre @ EncodeVarint y @ rest) shift (length pre) acc
     = Inr (acc OR push_bit shift y, length pre + length (EncodeVarint y))"
proof (induction y arbitrary: pre shift acc rule: EncodeVarint.induct)
  case (1 x)
  show ?case
  proof (cases "127 < x")
    case True
    let ?b = "(0x80 OR ucast (x AND 0x7F) :: byte)"
    have enc: "EncodeVarint x = ?b # EncodeVarint (drop_bit 7 x)"
      using True by (subst EncodeVarint.simps) simp
    from True have "128 \<le> unat x" by (simp add: word_less_nat_alt)
    with "1.prems" have big: "(2::nat) ^ 7 < 2 ^ (64 - shift)" by simp
    have "7 < 64 - shift"
      by (rule power_less_imp_less_exp [OF _ big]) simp
    then have sh: "shift + 7 < 64" by arith
    have "unat (drop_bit 7 x) = unat x div 2 ^ 7"
      by (simp add: drop_bit_eq_div unat_div)
    also have "\<dots> < 2 ^ (64 - (shift + 7))"
    proof -
      have "64 - shift = 7 + (64 - (shift + 7))" using sh by arith
      then have "(2::nat) ^ (64 - shift) = 2 ^ 7 * 2 ^ (64 - (shift + 7))"
        by (simp only: power_add)
      with "1.prems"(2) show ?thesis
        by (simp add: less_mult_imp_div_less mult.commute)
    qed
    finally have small: "unat (drop_bit 7 x) < 2 ^ (64 - (shift + 7))" .
    have ih: "decode_varint_loop ((pre @ [?b]) @ EncodeVarint (drop_bit 7 x) @ rest) (shift + 7)
          (length (pre @ [?b])) (acc OR push_bit shift (x AND 0x7F))
        = Inr ((acc OR push_bit shift (x AND 0x7F)) OR push_bit (shift + 7) (drop_bit 7 x),
               length (pre @ [?b]) + length (EncodeVarint (drop_bit 7 x)))"
      using "1.IH" [OF True sh small] .
    have at: "(pre @ EncodeVarint x @ rest) ! length pre = ?b"
      by (simp add: enc)
    have "decode_varint_loop (pre @ EncodeVarint x @ rest) shift (length pre) acc
        = decode_varint_loop (pre @ EncodeVarint x @ rest) (shift + 7) (length pre + 1)
            (acc OR push_bit shift (ucast ?b AND 0x7F))"
      using decode_step_cont [of shift "length pre" "pre @ EncodeVarint x @ rest" acc]
        "1.prems"(1) cont_byte_not_small [of x]
      by (simp only: at) (simp add: enc)
    also have "\<dots> = decode_varint_loop (pre @ EncodeVarint x @ rest) (shift + 7) (length pre + 1)
            (acc OR push_bit shift (x AND 0x7F))"
      by (simp only: cont_byte_payload)
    also have "\<dots> = Inr ((acc OR push_bit shift (x AND 0x7F)) OR push_bit (shift + 7) (drop_bit 7 x),
               length pre + length (EncodeVarint x))"
      using ih by (simp add: enc)
    finally show ?thesis by (simp only: or.assoc split7)
  next
    case False
    have enc: "EncodeVarint x = [ucast x]"
      using False by (subst EncodeVarint.simps) simp
    have at: "(pre @ EncodeVarint x @ rest) ! length pre = ucast x"
      by (simp add: enc)
    have "decode_varint_loop (pre @ EncodeVarint x @ rest) shift (length pre) acc
        = Inr (acc OR push_bit shift (ucast (ucast x :: byte) AND 0x7F), length pre + 1)"
      using decode_step_last [of shift "length pre" "pre @ EncodeVarint x @ rest" acc]
        "1.prems"(1) last_byte_small [OF False]
      by (simp only: at) (simp add: enc)
    then show ?thesis
      by (simp only: last_byte_payload [OF False]) (simp add: enc)
  qed
qed

lemma hb1: "(ucast b :: uint64) AND 0x80 = 0 \<longleftrightarrow> \<not> bit b 7" for b :: byte
proof -
  have "(ucast b :: uint64) AND 0x80 = (if bit b 7 then 0x80 else 0)"
    by (rule bit_word_eqI) (auto simp: bit_simps bit128)
  then show ?thesis by simp
qed

lemma hb2: "b < 0x80 \<longleftrightarrow> \<not> bit b 7" for b :: byte
proof -
  have "b < 2 ^ 7 \<longleftrightarrow> b AND mask 7 = b"
    by (simp add: mask_eq_iff word_less_alt)
  also have "\<dots> \<longleftrightarrow> \<not> bit b 7"
  proof
    assume "b AND mask 7 = b"
    then have "bit b 7 = bit (b AND mask 7) 7" by simp
    then show "\<not> bit b 7" by (simp add: bit_simps)
  next
    assume h: "\<not> bit b 7"
    show "b AND mask 7 = b"
    proof (rule bit_word_eqI)
      fix n assume "n < LENGTH(8)"
      then have "n < 7 \<or> n = 7" by auto
      with h show "bit (b AND mask 7) n = bit b n" by (auto simp: bit_simps)
    qed
  qed
  finally show ?thesis by simp
qed

lemma high_bit_test: "(ucast b :: uint64) AND 0x80 = 0 \<longleftrightarrow> b < 0x80" for b :: byte
  by (simp only: hb1 hb2)

lemma DecodeVarint_loop_eq:
  "DecodeVarint_loop bs shift n x =
     (case decode_varint_loop bs shift n x of Inl e \<Rightarrow> (0, 0) | Inr r \<Rightarrow> r)"
proof (induction bs shift n x rule: decode_varint_loop.induct)
  case (1 bs shift i x)
  show ?case
    using "1.IH"
    by (subst DecodeVarint_loop.simps, subst decode_varint_loop.simps)
       (simp add: Let_def high_bit_test)
qed

lemma decode_encoded_start:
  "decode_varint_loop (pre @ EncodeVarint y @ rest) 0 (length pre) 0
     = Inr (y, length pre + length (EncodeVarint y))"
proof -
  have "unat y < 2 ^ LENGTH(64)" by (rule unsigned_less)
  then have "unat y < 2 ^ (64 - 0)" by simp
  from decode_encoded [OF _ this, of pre rest 0] show ?thesis by simp
qed

lemma decodeBlockNumber_encodeBlockNumber: "decodeBlockNumber (encodeBlockNumber n) = n"
proof -
  have "decode_varint_loop ([] @ EncodeVarint n @ []) 0 (length ([]::bytes)) 0
      = Inr (n, length ([]::bytes) + length (EncodeVarint n))"
    by (rule decode_encoded_start)
  then show ?thesis
    by (simp add: decodeBlockNumber_def encodeBlockNumber_def DecodeVarint_def DecodeVarint_loop_eq)
qed

lemma decodeBlockNumTxIndex_encodeBlockNumTxIndex:
  "decodeBlockNumTxIndex (encodeBlockNumTxIndex b i) = Inr (b, i)"
proof -
  have 1: "decode_varint_loop ([] @ EncodeVarint b @ EncodeVarint i) 0 (length ([]::bytes)) 0
      = Inr (b, length ([]::bytes) + length (EncodeVarint b))"
    by (rule decode_encoded_start)
  have 2: "decode_varint_loop (EncodeVarint b @ EncodeVarint i @ []) 0 (length (EncodeVarint b)) 0
      = Inr (i, length (EncodeVarint b) + length (EncodeVarint i))"
    by (rule decode_encoded_start)
  from 1 2 show ?thesis
    by (simp add: decodeBlockNumTxIndex_def encodeBlockNumTxIndex_def NewBuffer_def Bytes_def
        Buffer_EncodeVarint_def Buffer_DecodeVarint_def)
qed

text \<open>
  Claim C1. Decoding an encoded block number gives the number back, for every 64-bit
  block number; decoding an encoded pair of block number and transaction index gives the
  pair back, without error, for every pair of 64-bit values.
\<close>

theorem codec_round_trip:
  "decodeBlockNumber (encodeBlockNumber n) = n
   \<and> decodeBlockNumTxIndex (encodeBlockNumTxIndex b i) = Inr (b, i)"
  by (simp only: decodeBlockNumber_encodeBlockNumber decodeBlockNumTxIndex_encodeBlockNumTxIndex)

section \<open>What extraction queues on the batch\<close>

lemma encodeBlockHashKey_Cons: "encodeBlockHashKey h = 1 # h"
  by (simp add: encodeBlockHashKey_def prependKeyPrefix_def prefixBlockHashKey_def)

lemma encodeTxGUIDKey_Cons: "encodeTxGUIDKey g = 2 # g"
  by (simp add: encodeTxGUIDKey_def prependKeyPrefix_def prefixTxGUIDKey_def)

lemma encodeAddressBlockNumCompositeKey_Cons:
  "encodeAddressBlockNumCompositeKey a n =
     3 # EncodeVarint (of_nat (length a)) @ bytes_of_string a @ EncodeVarint n"
  by (simp add: encodeAddressBlockNumCompositeKey_def NewBuffer_def Bytes_def
      Buffer_EncodeRawBytes_def Buffer_EncodeVarint_def prefixAddressBlockNumCompositeKey_def
      bytes_of_string_def Let_def)

lemma map_append_Nil: "map_append [] k v = [(k, [v])]"
  by (simp add: map_append_def)

lemma map_append_single: "map_append [(k, l)] k v = [(k, l @ [v])]"
  by (simp add: map_append_def)

lemma writeBatch_tx_step:
  "writeBatch (tx_step n i tx s) =
     writeBatch s @ [PutCF IndexesCF (encodeTxGUIDKey (getTxGUIDBytes tx))
                       (encodeBlockNumTxIndex n (of_nat i))]"
  by (simp add: tx_step_def WriteBatch_PutCF_def Let_def)

lemma txmap_tx_step:
  "addressToTxIndexesMap (tx_step n i tx s) =
     map_append (addressToTxIndexesMap s) (getTxExecutingAddress tx) (of_nat i)"
  by (simp add: tx_step_def Let_def)

lemma upt_add_Suc: "[i..<i + Suc k] = i # [Suc i..<Suc i + k]"
  by (subst upt_rec) simp

lemma writeBatch_tx_loop:
  "writeBatch (tx_loop n i txs s) = writeBatch s @ map (guid_put n) [i..<i + length txs]"
proof (induction txs arbitrary: i s)
  case Nil
  then show ?case by simp
next
  case (Cons tx txs)
  have "[i..<i + length (tx # txs)] = i # [Suc i..<Suc i + length txs]"
    using upt_add_Suc [of i "length txs"] by simp
  then show ?case
    by (simp add: Cons.IH writeBatch_tx_step guid_put_def getTxGUIDBytes_def)
qed

lemma txmap_tx_loop_single:
  "addressToTxIndexesMap s = [(''address1'', l)] \<Longrightarrow>
   addressToTxIndexesMap (tx_loop n i txs s) =
     [(''address1'', l @ map of_nat [i..<i + length txs])]"
proof (induction txs arbitrary: i s l)
  case Nil
  then show ?case by simp
next
  case (Cons tx txs)
  have up: "[i..<i + length (tx # txs)] = i # [Suc i..<Suc i + length txs]"
    using upt_add_Suc [of i "length txs"] by simp
  have "addressToTxIndexesMap (tx_step n i tx s) = [(''address1'', l @ [of_nat i])]"
    by (simp add: txmap_tx_step Cons.prems getTxExecutingAddress_def map_append_single)
  from Cons.IH [OF this, of "Suc i"]
  have "addressToTxIndexesMap (tx_loop n (Suc i) txs (tx_step n i tx s)) =
      [(''address1'', (l @ [of_nat i]) @ map of_nat [Suc i..<Suc i + length txs])]" .
  moreover have "l @ map of_nat [i..<i + length (tx # txs)]
      = (l @ [of_nat i :: uint64]) @ map of_nat [Suc i..<Suc i + length txs]"
    unfolding up by simp
  ultimately show ?case by (simp only: tx_loop.simps Suc_eq_plus1)
qed

lemma txmap_tx_loop_Nil:
  "addressToTxIndexesMap s = [] \<Longrightarrow>
   addressToTxIndexesMap (tx_loop n i txs s) =
     (if txs = [] then [] else [(''address1'', map of_nat [i..<i + length txs])])"
proof (cases txs)
  case Nil
  assume "addressToTxIndexesMap s = []"
  with Nil show ?thesis by simp
next
  case (Cons tx txs')
  assume e: "addressToTxIndexesMap s = []"
  have up: "[i..<i + length (tx # txs')] = i # [Suc i..<Suc i + length txs']"
    using upt_add_Suc [of i "length txs'"] by simp
  have "addressToTxIndexesMap (tx_step n i tx s) = [(''address1'', [] @ [of_nat i])]"
    by (simp add: txmap_tx_step e getTxExecutingAddress_def map_append_Nil)
  from txmap_tx_loop_single [OF this, of n "Suc i" txs']
  have "addressToTxIndexesMap (tx_loop n (Suc i) txs' (tx_step n i tx s)) =
      [(''address1'', ([] @ [of_nat i]) @ map of_nat [Suc i..<Suc i + length txs'])]" .
  moreover have "map of_nat [i..<i + length (tx # txs')]
      = ([] @ [of_nat i :: uint64]) @ map of_nat [Suc i..<Suc i + length txs']"
    unfolding up by simp
  ultimately show ?thesis by (simp only: Cons tx_loop.simps Suc_eq_plus1 list.simps if_False)
qed

lemma addIndexData_unfold:
  "addIndexDataForPersistence block n h wb =
     (None, wb @ PutCF IndexesCF (encodeBlockHashKey h) (encodeBlockNumber n)
              # map (guid_put n) [0..<length (GetTransactions block)]
              @ address_puts n (length (GetTransactions block)))"
  by (simp add: addIndexDataForPersistence_def Let_def writeBatch_tx_loop txmap_tx_loop_Nil
      WriteBatch_PutCF_def address_puts_def)

section \<open>Truncated location values\<close>

lemma decode_complete:
  "\<forall>b\<in>set cont. \<not> b < 0x80 \<Longrightarrow> final < 0x80 \<Longrightarrow> shift + 7 * length cont < 64 \<Longrightarrow>
   \<exists>x. decode_varint_loop (pre @ cont @ final # rest) shift (length pre) acc
         = Inr (x, length pre + length cont + 1)"
proof (induction cont arbitrary: pre shift acc)
  case Nil
  have "decode_varint_loop (pre @ final # rest) shift (length pre) acc
      = Inr (acc OR push_bit shift (ucast ((pre @ final # rest) ! length pre) AND 0x7F), length pre + 1)"
    using Nil.prems by (intro decode_step_last) simp_all
  then show ?case by simp
next
  case (Cons c cont)
  let ?bs = "pre @ (c # cont) @ final # rest"
  have c: "\<not> ?bs ! length pre < 0x80" using Cons.prems(1) by simp
  have sh: "shift < 64" using Cons.prems(3) by simp
  have step: "decode_varint_loop ?bs shift (length pre) acc
      = decode_varint_loop ?bs (shift + 7) (length pre + 1)
          (acc OR push_bit shift (ucast (?bs ! length pre) AND 0x7F))"
    using sh c by (intro decode_step_cont) simp_all
  have "\<exists>x. decode_varint_loop ((pre @ [c]) @ cont @ final # rest) (shift + 7) (length (pre @ [c]))
          (acc OR push_bit shift (ucast (?bs ! length pre) AND 0x7F))
        = Inr (x, length (pre @ [c]) + length cont + 1)"
    using Cons.prems by (intro Cons.IH) simp_all
  with step show ?case by simp
qed

lemma decode_truncated:
  "\<forall>b\<in>set t. \<not> b < 0x80 \<Longrightarrow>
   decode_varint_loop (pre @ t) shift (length pre) acc
     = Inl (if shift + 7 * length t < 64 then ErrUnexpectedEOF else ErrOverflow)"
proof (induction t arbitrary: pre shift acc)
  case Nil
  show ?case
  proof (cases "shift < 64")
    case True
    then show ?thesis using decode_step_eof [of shift pre "length pre" acc] by simp
  next
    case False
    then show ?thesis using decode_step_overflow [of shift pre "length pre" acc] by simp
  qed
next
  case (Cons c t)
  show ?case
  proof (cases "shift < 64")
    case True
    let ?bs = "pre @ c # t"
    have c: "\<not> ?bs ! length pre < 0x80" using Cons.prems by simp
    have step: "decode_varint_loop ?bs shift (length pre) acc
        = decode_varint_loop ?bs (shift + 7) (length pre + 1)
            (acc OR push_bit shift (ucast (?bs ! length pre) AND 0x7F))"
      using True c by (intro decode_step_cont) simp_all
    have "decode_varint_loop ((pre @ [c]) @ t) (shift + 7) (length (pre @ [c]))
            (acc OR push_bit shift (ucast (?bs ! length pre) AND 0x7F))
          = Inl (if (shift + 7) + 7 * length t < 64 then ErrUnexpectedEOF else ErrOverflow)"
      using Cons.prems by (intro Cons.IH) simp_all
    with step show ?thesis by (simp add: add.assoc)
  next
    case False
    then show ?thesis using decode_step_overflow [of shift "pre @ c # t" "length pre" acc] by simp
  qed
qed

text \<open>
  Claim C7. A location value that holds one complete variable-width integer (at most
  nine continuation bytes and a final byte) followed by a second integer that is missing
  or cut short (continuation bytes only) does not decode: \<open>decodeBlockNumTxIndex\<close>
  returns a decode error, \<open>io.ErrUnexpectedEOF\<close> when fewer than ten bytes follow
  the first integer, and never a pair of values.
\<close>

theorem decodeBlockNumTxIndex_truncated:
  assumes "\<forall>b\<in>set cont. 0x80 \<le> b" and "final < 0x80" and "length cont < 10"
    and "\<forall>b\<in>set t. 0x80 \<le> b"
  shows "decodeBlockNumTxIndex (cont @ final # t)
           = Inl (if length t < 10 then ErrUnexpectedEOF else ErrOverflow)
         \<and> MalformedValue (if length t < 10 then ErrUnexpectedEOF else ErrOverflow)"
proof -
  from assms(1) have c: "\<forall>b\<in>set cont. \<not> b < 0x80" by (simp add: not_less)
  from assms(4) have t: "\<forall>b\<in>set t. \<not> b < 0x80" by (simp add: not_less)
  from assms(3) have "0 + 7 * length cont < 64" by simp
  from decode_complete [OF c assms(2) this, of "[]" t 0]
  obtain x where 1: "decode_varint_loop (cont @ final # t) 0 0 0 = Inr (x, length cont + 1)"
    by auto
  have "decode_varint_loop ((cont @ [final]) @ t) 0 (length (cont @ [final])) 0
      = Inl (if 0 + 7 * length t < 64 then ErrUnexpectedEOF else ErrOverflow)"
    by (rule decode_truncated [OF t])
  moreover have "(7 * length t < 64) = (length t < 10)" by arith
  ultimately have 2: "decode_varint_loop (cont @ final # t) 0 (length cont + 1) 0
      = Inl (if length t < 10 then ErrUnexpectedEOF else ErrOverflow)"
    by simp
  show ?thesis
    using 1 2
    by (simp add: decodeBlockNumTxIndex_def NewBuffer_def Buffer_DecodeVarint_def MalformedValue_def)
qed

theorem decodeBlockNumTxIndex_truncated_witness:
  "decodeBlockNumTxIndex [7, 0x81] = Inl ErrUnexpectedEOF \<and> MalformedValue ErrUnexpectedEOF"
  using decodeBlockNumTxIndex_truncated [of "[]" 7 "[0x81]"] by simp

section \<open>Key families, empty blocks and the synchronous indexer\<close>

text \<open>
  Claim C4. The keys of the three families never coincide, whatever the hash, the GUID,
  the address and the block number: a block-hash key starts with byte 1, a GUID key with
  byte 2 and an address key with byte 3.
\<close>

theorem key_families_disjoint:
  "encodeBlockHashKey h \<noteq> encodeTxGUIDKey g
   \<and> encodeBlockHashKey h \<noteq> encodeAddressBlockNumCompositeKey a n
   \<and> encodeTxGUIDKey g \<noteq> encodeAddressBlockNumCompositeKey a n
   \<and> hd (encodeBlockHashKey h) = 1
   \<and> hd (encodeTxGUIDKey g) = 2
   \<and> hd (encodeAddressBlockNumCompositeKey a n) = 3"
  by (simp add: encodeBlockHashKey_Cons encodeTxGUIDKey_Cons
      encodeAddressBlockNumCompositeKey_Cons)

text \<open>
  Claim C6. For a block without transactions, extraction queues exactly one entry, the
  one that maps the block's hash to its number; none of the queued entries is a GUID
  entry or an address entry.
\<close>

theorem addIndexData_empty_block:
  assumes "GetTransactions block = []"
  shows "addIndexDataForPersistence block n h wb =
           (None, wb @ [PutCF IndexesCF (encodeBlockHashKey h) (encodeBlockNumber n)])
         \<and> in_family prefixBlockHashKey (PutCF IndexesCF (encodeBlockHashKey h) (encodeBlockNumber n))
         \<and> \<not> in_family prefixTxGUIDKey (PutCF IndexesCF (encodeBlockHashKey h) (encodeBlockNumber n))
         \<and> \<not> in_family prefixAddressBlockNumCompositeKey
               (PutCF IndexesCF (encodeBlockHashKey h) (encodeBlockNumber n))"
  using assms
  by (simp add: addIndexData_unfold address_puts_def encodeBlockHashKey_Cons
      prefixBlockHashKey_def prefixTxGUIDKey_def prefixAddressBlockNumCompositeKey_def)

theorem addIndexData_empty_block_witness:
  "addIndexDataForPersistence (Some \<lparr>Transactions = []\<rparr>) 7 [0xAB] [] =
     (None, [PutCF IndexesCF [1, 0xAB] [7]])"
proof -
  have e: "GetTransactions (Some \<lparr>Transactions = []\<rparr>) = []"
    by (simp add: GetTransactions_def)
  have "EncodeVarint 7 = [7]" by (subst EncodeVarint.simps) simp
  with addIndexData_empty_block [OF e, of 7 "[0xAB]" "[]"] show ?thesis
    by (simp add: encodeBlockHashKey_Cons encodeBlockNumber_def)
qed

text \<open>
  Claim C8. On the synchronous indexer \<open>createIndexesAsync\<close> returns the error "Method
  not applicable" for every block, number and hash and leaves the database as it was;
  \<open>isSynchronous\<close> is true; \<open>start\<close> returns no error and changes nothing, and
  \<open>stop\<close> changes nothing.
\<close>

theorem sync_indexer_contract:
  "createIndexesAsync indexer block blockNumber blockHash openchainDB =
     (Some (Errorf ''Method not applicable''), openchainDB)
   \<and> isSynchronous indexer
   \<and> start indexer openchainDB = (None, openchainDB)
   \<and> stop indexer openchainDB = openchainDB"
  by (simp add: createIndexesAsync_def isSynchronous_def start_def stop_def)

section \<open>Address entries\<close>

lemma in_family_guid_put:
  "in_family p (guid_put n j) = (p = 2)"
  by (auto simp: guid_put_def encodeTxGUIDKey_Cons)

lemma filter_guid_puts:
  "filter (in_family p) (map (guid_put n) js) = (if p = 2 then map (guid_put n) js else [])"
  by (induction js) (simp_all add: in_family_guid_put)

lemma filter_address_puts:
  "filter (in_family p) (address_puts n k) = (if p = 3 then address_puts n k else [])"
  by (auto simp: address_puts_def encodeAddressBlockNumCompositeKey_Cons)

lemma in_family_hash_put:
  "in_family p (PutCF IndexesCF (encodeBlockHashKey h) v) = (p = 1)"
  by (auto simp: encodeBlockHashKey_Cons)

lemma remdups_executing_addresses:
  "remdups (map getTxExecutingAddress txs) = (if txs = [] then [] else [''address1''])"
proof (induction txs)
  case Nil
  then show ?case by simp
next
  case (Cons tx txs)
  then show ?case
    by (cases txs) (simp_all add: getTxExecutingAddress_def)
qed

lemma positions_of_address1:
  "positions_of ''address1'' txs = map of_nat [0..<length txs]"
  by (simp add: positions_of_def getTxExecutingAddress_def)

lemma EncodeVarint_small: "x \<le> 127 \<Longrightarrow> EncodeVarint x = [ucast x]"
  by (subst EncodeVarint.simps) (simp add: not_less [symmetric])

lemma buf_encodeListTxIndexes_loop:
  "buf (encodeListTxIndexes_loop b l) = buf b @ concat (map EncodeVarint l)"
  by (induction l arbitrary: b) (simp_all add: Buffer_EncodeVarint_def)

lemma encodeListTxIndexes_concat:
  "encodeListTxIndexes l = concat (map EncodeVarint l)"
  by (simp add: encodeListTxIndexes_def Bytes_def NewBuffer_def buf_encodeListTxIndexes_loop)

text \<open>
  Claim C5. Extraction queues one address entry for each distinct executing address of
  the block's transactions, not one for each transaction. The key of the entry is byte 3,
  the length of the address and the address, and the block number; its value is the
  positions, in order, of the transactions that the address executes, each written as a
  variable-width integer, one after the other.
\<close>

theorem addIndexData_one_entry_per_address:
  "\<exists>new. addIndexDataForPersistence block n h wb = (None, wb @ new)
     \<and> filter (in_family prefixAddressBlockNumCompositeKey) new =
         map (\<lambda>a. PutCF IndexesCF
                    (3 # EncodeVarint (of_nat (length a)) @ bytes_of_string a @ EncodeVarint n)
                    (concat (map EncodeVarint (positions_of a (GetTransactions block)))))
           (remdups (map getTxExecutingAddress (GetTransactions block)))"
proof -
  let ?txs = "GetTransactions block"
  let ?new = "PutCF IndexesCF (encodeBlockHashKey h) (encodeBlockNumber n)
                # map (guid_put n) [0..<length ?txs] @ address_puts n (length ?txs)"
  have "filter (in_family prefixAddressBlockNumCompositeKey) ?new = address_puts n (length ?txs)"
    by (simp add: filter_guid_puts filter_address_puts in_family_hash_put
        prefixAddressBlockNumCompositeKey_def)
  also have "\<dots> = map (\<lambda>a. PutCF IndexesCF
                    (3 # EncodeVarint (of_nat (length a)) @ bytes_of_string a @ EncodeVarint n)
                    (concat (map EncodeVarint (positions_of a ?txs))))
           (remdups (map getTxExecutingAddress ?txs))"
    by (simp add: remdups_executing_addresses address_puts_def positions_of_address1
        encodeListTxIndexes_concat encodeAddressBlockNumCompositeKey_Cons)
  finally show ?thesis
    using addIndexData_unfold [of block n h wb] by blast
qed

theorem addIndexData_one_entry_per_address_witness:
  "\<exists>new. addIndexDataForPersistence
            (Some \<lparr>Transactions =
               [\<lparr>Type = Transaction_OTHER 0, ChainletID = None, Payload = [1]\<rparr>,
                \<lparr>Type = Transaction_OTHER 0, ChainletID = None, Payload = [2]\<rparr>,
                \<lparr>Type = Transaction_OTHER 0, ChainletID = None, Payload = [3]\<rparr>]\<rparr>)
            7 [0xAB] [] = (None, new)
     \<and> filter (in_family prefixAddressBlockNumCompositeKey) new =
         [PutCF IndexesCF [3, 8, 0x61, 0x64, 0x64, 0x72, 0x65, 0x73, 0x73, 0x31, 7] [0, 1, 2]]"
proof -
  let ?blk = "Some \<lparr>Transactions =
               [\<lparr>Type = Transaction_OTHER 0, ChainletID = None, Payload = [1]\<rparr>,
                \<lparr>Type = Transaction_OTHER 0, ChainletID = None, Payload = [2]\<rparr>,
                \<lparr>Type = Transaction_OTHER 0, ChainletID = None, Payload = [3::byte]\<rparr>]\<rparr>"
  have up: "[0..<3] = [0, 1, 2]" by (simp add: upt_rec)
  have pos: "positions_of ''address1'' (GetTransactions ?blk) = [0, 1, 2]"
    by (simp add: positions_of_def getTxExecutingAddress_def GetTransactions_def up)
  have key: "3 # EncodeVarint (of_nat (length ''address1'')) @ bytes_of_string ''address1''
               @ EncodeVarint 7
             = [3, 8, 0x61, 0x64, 0x64, 0x72, 0x65, 0x73, 0x73, 0x31, 7]"
    by (simp add: EncodeVarint_small bytes_of_string_def)
  have rd: "remdups (map getTxExecutingAddress (GetTransactions ?blk)) = [''address1'']"
    by (simp add: getTxExecutingAddress_def GetTransactions_def)
  from addIndexData_one_entry_per_address [of ?blk 7 "[0xAB]" "[]"]
  show ?thesis
    by (simp only: rd list.map pos key append_Nil) (simp add: EncodeVarint_small)
qed

section \<open>Queries against the committed index\<close>

lemma Write_Nil: "Write [] st = st"
  by (simp add: Write_def)

lemma Write_Cons: "Write (op # ops) st = Write ops (apply_op op st)"
  by (simp add: Write_def)

lemma Write_append: "Write (xs @ ys) st = Write ys (Write xs st)"
  by (simp add: Write_def)

lemma apply_op_other: "op_key op \<noteq> key \<Longrightarrow> apply_op op st key = st key"
  by (cases op) auto

lemma Write_other:
  "(\<And>op. op \<in> set ops \<Longrightarrow> op_key op \<noteq> key) \<Longrightarrow> Write ops st key = st key"
proof (induction ops arbitrary: st)
  case Nil
  then show ?case by (simp add: Write_Nil)
next
  case (Cons op ops)
  have "Write ops (apply_op op st) key = apply_op op st key"
    using Cons.prems by (intro Cons.IH) simp
  also have "\<dots> = st key"
    using Cons.prems by (intro apply_op_other) simp
  finally show ?case by (simp add: Write_Cons)
qed

lemma op_key_guid_put:
  "op_key (guid_put n j) = (IndexesCF, 2 # bytes_of_string ''TODO:Fetch guid from Tx'')"
  by (simp add: guid_put_def encodeTxGUIDKey_Cons)

lemma op_key_address_puts:
  "op \<in> set (address_puts n k) \<Longrightarrow> \<exists>rest. op_key op = (IndexesCF, 3 # rest)"
  by (auto simp: address_puts_def encodeAddressBlockNumCompositeKey_Cons split: if_splits)

lemma Write_guid_puts:
  "0 < k \<Longrightarrow>
   Write (map (guid_put n) [0..<k]) st
     (IndexesCF, encodeTxGUIDKey (bytes_of_string ''TODO:Fetch guid from Tx''))
     = Some (encodeBlockNumTxIndex n (of_nat (k - 1)))"
proof (cases k)
  case 0
  assume "0 < k"
  with 0 show ?thesis by simp
next
  case (Suc k')
  have "map (guid_put n) [0..<k] = map (guid_put n) [0..<k'] @ [guid_put n k']"
    by (simp add: Suc)
  then show ?thesis
    by (simp add: Write_append Write_Cons Write_Nil guid_put_def Suc)
qed

lemma Write_address_puts_guid_key:
  "Write (address_puts n k) st (IndexesCF, encodeTxGUIDKey g) = st (IndexesCF, encodeTxGUIDKey g)"
proof (rule Write_other)
  fix op assume "op \<in> set (address_puts n k)"
  from op_key_address_puts [OF this] show "op_key op \<noteq> (IndexesCF, encodeTxGUIDKey g)"
    by (auto simp: encodeTxGUIDKey_Cons)
qed

lemma Write_new_entries_other_hash:
  assumes "h' \<noteq> h"
  shows "Write (snd (addIndexDataForPersistence block n h' [])) st (IndexesCF, encodeBlockHashKey h)
           = st (IndexesCF, encodeBlockHashKey h)"
proof (rule Write_other)
  fix op
  assume "op \<in> set (snd (addIndexDataForPersistence block n h' []))"
  then consider "op = PutCF IndexesCF (encodeBlockHashKey h') (encodeBlockNumber n)"
    | j where "op = guid_put n j"
    | "op \<in> set (address_puts n (length (GetTransactions block)))"
    by (auto simp: addIndexData_unfold)
  then show "op_key op \<noteq> (IndexesCF, encodeBlockHashKey h)"
  proof cases
    case 1
    with assms show ?thesis by (simp add: encodeBlockHashKey_Cons)
  next
    case 2
    then show ?thesis by (simp add: op_key_guid_put encodeBlockHashKey_Cons)
  next
    case 3
    from op_key_address_puts [OF this] show ?thesis
      by (auto simp: encodeBlockHashKey_Cons)
  qed
qed

lemma commit_block_other_hash:
  "h' \<noteq> h \<Longrightarrow>
   data (commit_block db (block, n, h')) (IndexesCF, encodeBlockHashKey h)
     = data db (IndexesCF, encodeBlockHashKey h)"
  using Write_new_entries_other_hash [of h' h block n "data db"]
  by (auto simp: commit_block_def createIndexesSync_def split: prod.splits)

lemma commit_block_fault: "fault (commit_block db c) = fault db"
  by (simp add: commit_block_def split: prod.splits)

lemma foldl_commit_block_other_hash:
  "h \<notin> set (map (\<lambda>c. snd (snd c)) blocks) \<Longrightarrow>
   data (foldl commit_block db blocks) (IndexesCF, encodeBlockHashKey h)
     = data db (IndexesCF, encodeBlockHashKey h)
   \<and> fault (foldl commit_block db blocks) = fault db"
proof (induction blocks arbitrary: db)
  case Nil
  then show ?case by simp
next
  case (Cons c blocks)
  obtain block n h' where c: "c = (block, n, h')" by (cases c) auto
  with Cons.prems have "h' \<noteq> h" by auto
  then have "data (commit_block db c) (IndexesCF, encodeBlockHashKey h)
      = data db (IndexesCF, encodeBlockHashKey h)"
    unfolding c by (rule commit_block_other_hash)
  moreover have "h \<notin> set (map (\<lambda>c. snd (snd c)) blocks)" using Cons.prems by simp
  ultimately show ?case
    using Cons.IH [of "commit_block db c"] by (simp add: commit_block_fault)
qed

lemma decodeBlockNumber_Nil: "decodeBlockNumber [] = 0"
  unfolding decodeBlockNumber_def DecodeVarint_def
  by (subst DecodeVarint_loop.simps) simp

lemma fetchBlockNumber_other_hash:
  assumes "h \<notin> set (map (\<lambda>c. snd (snd c)) blocks)"
  shows "fetchBlockNumberByBlockHash indexer (indexed_db blocks) h = Inr 0"
  using foldl_commit_block_other_hash [OF assms, of "\<lparr>data = Map.empty, fault = None\<rparr>"]
  by (simp add: fetchBlockNumberByBlockHash_def fetchBlockNumberByBlockHashFromDB_def
      GetFromIndexesCF_def indexed_db_def decodeBlockNumber_Nil)

text \<open>
  Claim C3, at a hash that was never indexed. One block with hash \<open>0xAA\<close> and number 7
  is indexed and committed; the query for hash \<open>0xBB\<close> does not fail with
  \<open>NotFound\<close>: the read of the absent key brings no bytes and no error,
  \<open>fetchBlockNumberByBlockHashFromDB\<close> decodes them without looking, and the query
  returns block number 0 as its result.
\<close>

theorem fetchBlockNumber_absent_key:
  "fetchBlockNumberByBlockHash newBlockchainIndexerSync
     (indexed_db
        [(Some \<lparr>Transactions = [\<lparr>Type = Transaction_OTHER 0, ChainletID = None, Payload = []\<rparr>]\<rparr>,
          7, [0xAA])])
     [0xBB] = Inr 0
   \<and> fetchBlockNumberByBlockHash newBlockchainIndexerSync
       (indexed_db
          [(Some \<lparr>Transactions = [\<lparr>Type = Transaction_OTHER 0, ChainletID = None, Payload = []\<rparr>]\<rparr>,
            7, [0xAA])])
       [0xBB] \<noteq> Inl NotFound"
proof -
  have "fetchBlockNumberByBlockHash newBlockchainIndexerSync
     (indexed_db
        [(Some \<lparr>Transactions = [\<lparr>Type = Transaction_OTHER 0, ChainletID = None, Payload = []\<rparr>]\<rparr>,
          7, [0xAA])])
     [0xBB] = Inr 0"
    by (rule fetchBlockNumber_other_hash) simp
  then show ?thesis by simp
qed

text \<open>
  Claim C2, at a stored value that is cut short. The single byte \<open>0x80\<close> announces a
  further byte that is not there. \<open>decodeBlockNumber\<close> turns it into block number 0, and
  the query returns that 0 as its result, without error.
\<close>

theorem fetchBlockNumber_truncated_value:
  "decodeBlockNumber [0x80] = 0
   \<and> fetchBlockNumberByBlockHashFromDB
       \<lparr>data = [(IndexesCF, encodeBlockHashKey [0xAB]) \<mapsto> [0x80]], fault = None\<rparr> [0xAB]
     = Inr 0"
proof -
  have "DecodeVarint [0x80] = (0, 0)"
    unfolding DecodeVarint_def
    by (subst DecodeVarint_loop.simps, subst DecodeVarint_loop.simps) (simp add: Let_def)
  then show ?thesis
    by (simp add: decodeBlockNumber_def fetchBlockNumberByBlockHashFromDB_def
        GetFromIndexesCF_def)
qed

section \<open>The frame of extraction and the placeholder accessors\<close>

lemma GetTransactions_with_deployments:
  "length (GetTransactions (with_deployments f g block)) = length (GetTransactions block)"
  by (cases block) (simp_all add: with_deployments_def GetTransactions_def)

lemma new_entries_shape:
  assumes "op \<in> set (PutCF IndexesCF (encodeBlockHashKey h) (encodeBlockNumber n)
                        # map (guid_put n) js @ address_puts n k)"
  shows "\<exists>key val. op = PutCF IndexesCF key val \<and>
           ((key = encodeBlockHashKey h \<and> val = encodeBlockNumber n)
            \<or> (\<exists>g i. key = encodeTxGUIDKey g \<and> val = encodeBlockNumTxIndex n i)
            \<or> (\<exists>a l. key = encodeAddressBlockNumCompositeKey a n \<and> val = encodeListTxIndexes l))"
proof -
  from assms consider "op = PutCF IndexesCF (encodeBlockHashKey h) (encodeBlockNumber n)"
    | j where "op = guid_put n j"
    | "op \<in> set (address_puts n k)"
    by auto
  then show ?thesis
  proof cases
    case 1
    then show ?thesis by simp
  next
    case 2
    then show ?thesis unfolding guid_put_def by blast
  next
    case 3
    then have "op = PutCF IndexesCF (encodeAddressBlockNumCompositeKey ''address1'' n)
                      (encodeListTxIndexes (map of_nat [0..<k]))"
      by (simp add: address_puts_def split: if_splits)
    then show ?thesis by blast
  qed
qed

text \<open>
  Claim C9. \<open>addIndexDataForPersistence\<close> returns no error and only appends to the batch;
  every write it appends is a put on the index column family of a block-hash entry, a GUID
  entry or an address entry. The identifiers of deployed units that it gathers for
  deployment transactions reach neither the batch nor the result: giving the transactions
  of the block any other types and identifiers changes nothing of what is returned.
\<close>

theorem addIndexData_frame:
  "fst (addIndexDataForPersistence block n h wb) = None
   \<and> (\<exists>new. snd (addIndexDataForPersistence block n h wb) = wb @ new
        \<and> (\<forall>op\<in>set new. \<exists>key val. op = PutCF IndexesCF key val \<and>
             ((key = encodeBlockHashKey h \<and> val = encodeBlockNumber n)
              \<or> (\<exists>g i. key = encodeTxGUIDKey g \<and> val = encodeBlockNumTxIndex n i)
              \<or> (\<exists>a l. key = encodeAddressBlockNumCompositeKey a n
                        \<and> val = encodeListTxIndexes l))))
   \<and> addIndexDataForPersistence (with_deployments f g block) n h wb
       = addIndexDataForPersistence block n h wb"
proof (intro conjI)
  show "fst (addIndexDataForPersistence block n h wb) = None"
    by (simp add: addIndexData_unfold)
  show "\<exists>new. snd (addIndexDataForPersistence block n h wb) = wb @ new
        \<and> (\<forall>op\<in>set new. \<exists>key val. op = PutCF IndexesCF key val \<and>
             ((key = encodeBlockHashKey h \<and> val = encodeBlockNumber n)
              \<or> (\<exists>g i. key = encodeTxGUIDKey g \<and> val = encodeBlockNumTxIndex n i)
              \<or> (\<exists>a l. key = encodeAddressBlockNumCompositeKey a n
                        \<and> val = encodeListTxIndexes l)))"
    using new_entries_shape [of _ h n "[0..<length (GetTransactions block)]"
        "length (GetTransactions block)"]
    by (intro exI [of _ "PutCF IndexesCF (encodeBlockHashKey h) (encodeBlockNumber n)
          # map (guid_put n) [0..<length (GetTransactions block)]
          @ address_puts n (length (GetTransactions block))"] conjI ballI)
       (simp_all only: addIndexData_unfold snd_conv)
  show "addIndexDataForPersistence (with_deployments f g block) n h wb
       = addIndexDataForPersistence block n h wb"
    by (simp only: addIndexData_unfold GetTransactions_with_deployments)
qed

theorem addIndexData_frame_witness:
  "addIndexDataForPersistence
     (Some \<lparr>Transactions =
        [\<lparr>Type = Transaction_CHAINLET_NEW, ChainletID = Some (MkChainletID ''cc''), Payload = []\<rparr>]\<rparr>)
     7 [0xAB] []
   = addIndexDataForPersistence
       (Some \<lparr>Transactions = [\<lparr>Type = Transaction_OTHER 0, ChainletID = None, Payload = []\<rparr>]\<rparr>)
       7 [0xAB] []
   \<and> addressToChainletIDsMap
       (tx_loop 7 0
          [\<lparr>Type = Transaction_CHAINLET_NEW, ChainletID = Some (MkChainletID ''cc''), Payload = []\<rparr>]
          \<lparr>writeBatch = [], addressToTxIndexesMap = [], addressToChainletIDsMap = []\<rparr>)
     = [(''address1'', [Some (MkChainletID ''cc'')]), (''address2'', [Some (MkChainletID ''cc'')])]"
proof -
  have "with_deployments (\<lambda>t. Transaction_CHAINLET_NEW) (\<lambda>t. Some (MkChainletID ''cc''))
          (Some \<lparr>Transactions = [\<lparr>Type = Transaction_OTHER 0, ChainletID = None, Payload = []\<rparr>]\<rparr>)
      = Some \<lparr>Transactions =
          [\<lparr>Type = Transaction_CHAINLET_NEW, ChainletID = Some (MkChainletID ''cc''), Payload = []\<rparr>]\<rparr>"
    by (simp add: with_deployments_def)
  with addIndexData_frame
    [of "Some \<lparr>Transactions = [\<lparr>Type = Transaction_OTHER 0, ChainletID = None, Payload = []\<rparr>]\<rparr>"
        7 "[0xAB]" "[]" "\<lambda>t. Transaction_CHAINLET_NEW" "\<lambda>t. Some (MkChainletID ''cc'')"]
  show ?thesis
    by (simp add: tx_step_def getAuthorisedAddresses_def GetChainletID_def map_append_def Let_def)
qed

text \<open>
  Claim C10. The accessors for the GUID and the executing address of a transaction return
  the same fixed values for every transaction. So in a block of two or more transactions
  all GUID entries are put under one key, and once the batch is committed that key holds
  the location of the last transaction; and extraction queues exactly one address entry.
\<close>

theorem placeholder_accessors:
  "getTxGUIDBytes t1 = getTxGUIDBytes t2
   \<and> getTxGUIDBytes t1 = bytes_of_string ''TODO:Fetch guid from Tx''
   \<and> getTxExecutingAddress t1 = getTxExecutingAddress t2
   \<and> getTxExecutingAddress t1 = ''address1''
   \<and> (2 \<le> length (GetTransactions block) \<longrightarrow>
        (\<exists>new. addIndexDataForPersistence block n h wb = (None, wb @ new)
           \<and> filter (in_family prefixTxGUIDKey) new =
               map (\<lambda>j. PutCF IndexesCF (encodeTxGUIDKey (getTxGUIDBytes t1))
                          (encodeBlockNumTxIndex n (of_nat j)))
                 [0..<length (GetTransactions block)]
           \<and> Write (wb @ new) st (IndexesCF, encodeTxGUIDKey (getTxGUIDBytes t1))
               = Some (encodeBlockNumTxIndex n (of_nat (length (GetTransactions block) - 1)))
           \<and> fetchTransactionIndexByGUIDFromDB \<lparr>data = Write (wb @ new) st, fault = None\<rparr>
                 (getTxGUIDBytes t1)
               = Inr (n, of_nat (length (GetTransactions block) - 1))
           \<and> length (filter (in_family prefixAddressBlockNumCompositeKey) new) = 1))"
proof (intro conjI impI)
  assume two: "2 \<le> length (GetTransactions block)"
  let ?k = "length (GetTransactions block)"
  let ?gk = "encodeTxGUIDKey (bytes_of_string ''TODO:Fetch guid from Tx'')"
  let ?new = "PutCF IndexesCF (encodeBlockHashKey h) (encodeBlockNumber n)
                # map (guid_put n) [0..<?k] @ address_puts n ?k"
  from two have pos: "0 < ?k" by arith
  then have ne: "GetTransactions block \<noteq> []" by auto
  have a: "addIndexDataForPersistence block n h wb = (None, wb @ ?new)"
    by (rule addIndexData_unfold)
  have b: "filter (in_family prefixTxGUIDKey) ?new =
      map (\<lambda>j. PutCF IndexesCF (encodeTxGUIDKey (getTxGUIDBytes t1))
                 (encodeBlockNumTxIndex n (of_nat j))) [0..<?k]"
    by (simp add: filter_guid_puts filter_address_puts in_family_hash_put prefixTxGUIDKey_def
        getTxGUIDBytes_def guid_put_def)
  have "Write (wb @ ?new) st (IndexesCF, ?gk)
      = Write (address_puts n ?k)
          (Write (map (guid_put n) [0..<?k])
             (Write (wb @ [PutCF IndexesCF (encodeBlockHashKey h) (encodeBlockNumber n)]) st))
          (IndexesCF, ?gk)"
    by (simp add: Write_append Write_Cons Write_Nil)
  also have "\<dots> = Some (encodeBlockNumTxIndex n (of_nat (?k - 1)))"
    by (simp only: Write_address_puts_guid_key) (rule Write_guid_puts [OF pos])
  finally have c: "Write (wb @ ?new) st (IndexesCF, ?gk)
      = Some (encodeBlockNumTxIndex n (of_nat (?k - 1)))" .
  have d: "fetchTransactionIndexByGUIDFromDB \<lparr>data = Write (wb @ ?new) st, fault = None\<rparr>
             (bytes_of_string ''TODO:Fetch guid from Tx'') = Inr (n, of_nat (?k - 1))"
    by (simp add: fetchTransactionIndexByGUIDFromDB_def GetFromIndexesCF_def c
        decodeBlockNumTxIndex_encodeBlockNumTxIndex)
  have e: "length (filter (in_family prefixAddressBlockNumCompositeKey) ?new) = 1"
    using ne
    by (simp add: filter_guid_puts filter_address_puts in_family_hash_put
        prefixAddressBlockNumCompositeKey_def)
       (simp add: address_puts_def)
  show "\<exists>new. addIndexDataForPersistence block n h wb = (None, wb @ new)
           \<and> filter (in_family prefixTxGUIDKey) new =
               map (\<lambda>j. PutCF IndexesCF (encodeTxGUIDKey (getTxGUIDBytes t1))
                          (encodeBlockNumTxIndex n (of_nat j)))
                 [0..<length (GetTransactions block)]
           \<and> Write (wb @ new) st (IndexesCF, encodeTxGUIDKey (getTxGUIDBytes t1))
               = Some (encodeBlockNumTxIndex n (of_nat (length (GetTransactions block) - 1)))
           \<and> fetchTransactionIndexByGUIDFromDB \<lparr>data = Write (wb @ new) st, fault = None\<rparr>
                 (getTxGUIDBytes t1)
               = Inr (n, of_nat (length (GetTransactions block) - 1))
           \<and> length (filter (in_family prefixAddressBlockNumCompositeKey) new) = 1"
    using a b c d e
    by (intro exI [of _ ?new]) (simp only: getTxGUIDBytes_def simp_thms)
qed (simp_all add: getTxGUIDBytes_def getTxExecutingAddress_def)

theorem placeholder_accessors_witness:
  "fetchTransactionIndexByGUIDFromDB
     \<lparr>data = Write (snd (addIndexDataForPersistence
                (Some \<lparr>Transactions =
                   [\<lparr>Type = Transaction_OTHER 0, ChainletID = None, Payload = [1]\<rparr>,
                    \<lparr>Type = Transaction_OTHER 0, ChainletID = None, Payload = [2]\<rparr>]\<rparr>)
                7 [0xAB] [])) Map.empty,
      fault = None\<rparr>
     (bytes_of_string ''TODO:Fetch guid from Tx'') = Inr (7, 1)"
proof -
  let ?t = "\<lparr>Type = Transaction_OTHER 0, ChainletID = None, Payload = [1::byte]\<rparr>"
  let ?blk = "Some \<lparr>Transactions =
                   [\<lparr>Type = Transaction_OTHER 0, ChainletID = None, Payload = [1]\<rparr>,
                    \<lparr>Type = Transaction_OTHER 0, ChainletID = None, Payload = [2::byte]\<rparr>]\<rparr>"
  have len: "length (GetTransactions ?blk) = 2" by (simp add: GetTransactions_def)
  from placeholder_accessors [of ?t ?t ?blk 7 "[0xAB]" "[]" Map.empty]
  obtain new where "addIndexDataForPersistence ?blk 7 [0xAB] [] = (None, [] @ new)"
    and "fetchTransactionIndexByGUIDFromDB \<lparr>data = Write ([] @ new) Map.empty, fault = None\<rparr>
           (getTxGUIDBytes ?t) = Inr (7, of_nat (length (GetTransactions ?blk) - 1))"
    unfolding len by auto
  then show ?thesis by (simp add: len getTxGUIDBytes_def)
qed

end
